theory Spec2Isabelle
  imports Main "HOL-Library.Word" "HOL-Library.AList"
begin

section \<open>Strings and values of the worker\<close>

text \<open>
  A JavaScript string is a sequence of UTF-16 code units. Constants of the source are
  written as ASCII literals and converted with \<open>js\<close>.
\<close>

type_synonym cu = "16 word"
type_synonym jsstring = "cu list"

definition js :: "string \<Rightarrow> jsstring" where
  "js s = map of_char s"

text \<open>
  The value bound to \<open>email\<close> after destructuring the request body. Besides a
  string it may be \<open>undefined\<close> (no such property), \<open>null\<close>, or any other JSON
  value (boolean, number, array, object); the latter is kept by the two things the handler
  observes of it: its truthiness and its string coercion (\<open>None\<close> when the coercion
  throws). Such a value has no callable \<open>toLowerCase\<close>.
\<close>

datatype jsval = JUndefined | JNull | JString jsstring | JOther bool "jsstring option"

fun ToBoolean :: "jsval \<Rightarrow> bool" where
  "ToBoolean JUndefined = False"
| "ToBoolean JNull = False"
| "ToBoolean (JString s) = (s \<noteq> [])"
| "ToBoolean (JOther b r) = b"

fun ToString :: "jsval \<Rightarrow> jsstring option" where
  "ToString JUndefined = Some (js ''undefined'')"
| "ToString JNull = Some (js ''null'')"
| "ToString (JString s) = Some s"
| "ToString (JOther b r) = r"

text \<open>Strict equality \<open>v === s\<close> of a value with a string.\<close>

fun strict_eq_string :: "jsval \<Rightarrow> jsstring \<Rightarrow> bool" where
  "strict_eq_string (JString t) s = (t = s)"
| "strict_eq_string v s = False"

subsection \<open>White space, trim, lower case\<close>

text \<open>
  The code units matched by \<open>\<bsol>s\<close> in a regular expression; \<open>trim\<close> strips the
  same set (white space and line terminators).
\<close>

definition is_ws :: "cu \<Rightarrow> bool" where
  "is_ws c = (c \<in> set [0x09, 0x0A, 0x0B, 0x0C, 0x0D, 0x20, 0xA0, 0x1680,
                         0x2028, 0x2029, 0x202F, 0x205F, 0x3000, 0xFEFF]
              \<or> (0x2000 \<le> c \<and> c \<le> 0x200A))"

definition trim :: "jsstring \<Rightarrow> jsstring" where
  "trim s = rev (dropWhile is_ws (rev (dropWhile is_ws s)))"

definition is_ascii :: "cu \<Rightarrow> bool" where
  "is_ascii c = (c < 0x80)"

definition ascii_lower :: "cu \<Rightarrow> cu" where
  "ascii_lower c = (if 0x41 \<le> c \<and> c \<le> 0x5A then c + 0x20 else c)"

text \<open>
  \<open>toLowerCase\<close>: on a string of ASCII code units it maps \<open>A\<close>..\<open>Z\<close> to
  \<open>a\<close>..\<open>z\<close>. The Unicode case tables that decide the result on any other string
  are not part of the repository; they are the parameter \<open>ulower\<close>.
\<close>

definition toLowerCase :: "(jsstring \<Rightarrow> jsstring) \<Rightarrow> jsstring \<Rightarrow> jsstring" where
  "toLowerCase ulower s = (if list_all is_ascii s then map ascii_lower s else ulower s)"

subsection \<open>The email pattern\<close>

text \<open>
  The pattern \<open>/^[^\<bsol>s@]+@[^\<bsol>s@]+\<bsol>.[^\<bsol>s@]+$/\<close> is a sequence of literal code
  units and of character classes under \<open>+\<close>, anchored at both ends. \<open>re_match\<close>
  tries every length of each repetition.
\<close>

datatype re_item = Lit cu | Plus "cu \<Rightarrow> bool"

fun re_match :: "re_item list \<Rightarrow> jsstring \<Rightarrow> bool" where
  "re_match [] s = (s = [])"
| "re_match (Lit c # r) [] = False"
| "re_match (Lit c # r) (x # xs) = (x = c \<and> re_match r xs)"
| "re_match (Plus p # r) [] = False"
| "re_match (Plus p # r) (x # xs) = (p x \<and> (re_match r xs \<or> re_match (Plus p # r) xs))"

definition not_ws_at :: "cu \<Rightarrow> bool" where
  "not_ws_at c = (\<not> is_ws c \<and> c \<noteq> 0x40)"

definition email_pattern :: "re_item list" where
  "email_pattern = [Plus not_ws_at, Lit 0x40, Plus not_ws_at, Lit 0x2E, Plus not_ws_at]"

definition isValidEmail :: "jsstring \<Rightarrow> bool" where
  "isValidEmail email = re_match email_pattern email"

section \<open>The subscriber store\<close>

text \<open>
  A stored value is a text. The handlers observe of it only whether it is empty and what
  \<open>JSON.parse\<close> makes of it, so a text is kept as one of: the empty text; a text
  on which \<open>JSON.parse\<close> throws; a text that parses to \<open>null\<close>; any other text,
  given by the \<open>token\<close> and \<open>subscribed_at\<close> properties of the parsed value
  (\<open>JUndefined\<close> for a property that is not there).
\<close>

datatype kvtext = EmptyText | Unparseable | JsonNull | JsonWith jsval jsval

text \<open>
  The key-value store (\<open>env.SUBSCRIBERS\<close>) is a service of the platform, outside the
  repository: a durable mapping from string keys to string values with \<open>get\<close>,
  \<open>put\<close>, \<open>delete\<close> and a listing of all keys. It is an association list with
  distinct keys; its order is the order of the listing.
\<close>

type_synonym store = "(jsstring \<times> kvtext) list"

definition wf_store :: "store \<Rightarrow> bool" where
  "wf_store st = distinct (map fst st)"

definition kv_get :: "store \<Rightarrow> jsstring \<Rightarrow> kvtext option" where
  "kv_get st k = map_of st k"

definition kv_put :: "store \<Rightarrow> jsstring \<Rightarrow> kvtext \<Rightarrow> store" where
  "kv_put st k v = AList.update k v st"

definition kv_delete :: "store \<Rightarrow> jsstring \<Rightarrow> store" where
  "kv_delete st k = AList.delete k st"

definition kv_list :: "store \<Rightarrow> jsstring list" where
  "kv_list st = map fst st"

text \<open>Truthiness of the result of \<open>get\<close>: \<open>null\<close> and the empty text are falsy.\<close>

fun truthy_text :: "kvtext option \<Rightarrow> bool" where
  "truthy_text None = False"
| "truthy_text (Some EmptyText) = False"
| "truthy_text (Some v) = True"

section \<open>Requests and responses\<close>

text \<open>
  The outcome of \<open>request.json()\<close> followed by the destructuring of \<open>email\<close>: the
  body is not JSON (the promise rejects), it is \<open>null\<close> (destructuring throws), or it
  is a value whose \<open>email\<close> property is the given one.
\<close>

datatype parsed_body = BodyRejects | BodyNull | BodyWith jsval

text \<open>
  What the handlers read of a request: \<open>request.method\<close> (the field
  \<open>http_method\<close>), the path and the two query parameters of \<open>request.url\<close>
  (\<open>None\<close> for a parameter that is not there), and the body.
\<close>

record request =
  http_method :: jsstring
  pathname :: jsstring
  param_token :: "jsstring option"
  param_key :: "jsstring option"
  body :: parsed_body

record subscriber =
  email :: jsstring
  token :: jsval
  subscribed_at :: jsval

datatype content =
    NoContent
  | PlainText string
  | JsonError string
  | JsonMessage string
  | HtmlPage string string
  | JsonSubscribers "subscriber list"

record response =
  status :: nat
  headers :: "(string \<times> string) list"
  content :: content

datatype exn = SyntaxError | TypeError

record env =
  SUBSCRIBERS :: store
  API_SECRET :: "jsstring option"

definition CORS_HEADERS :: "(string \<times> string) list" where
  "CORS_HEADERS =
    [(''Access-Control-Allow-Origin'', ''*''),
     (''Access-Control-Allow-Methods'', ''GET, POST, OPTIONS''),
     (''Access-Control-Allow-Headers'', ''Content-Type'')]"

definition htmlPage :: "string \<Rightarrow> string \<Rightarrow> content" where
  "htmlPage title message = HtmlPage title message"

definition json_response :: "nat \<Rightarrow> content \<Rightarrow> response" where
  "json_response st c =
    \<lparr>status = st, headers = (''Content-Type'', ''application/json'') # CORS_HEADERS, content = c\<rparr>"

definition html_response :: "nat \<Rightarrow> content \<Rightarrow> response" where
  "html_response st c = \<lparr>status = st, headers = [(''Content-Type'', ''text/html'')], content = c\<rparr>"

section \<open>Subscribe\<close>

text \<open>
  \<open>uuid\<close> and \<open>now\<close> are what \<open>generateToken()\<close> and
  \<open>new Date().toISOString()\<close> give in this call. Every exception inside the handler
  is caught and answered with status 500. The result is the response and the store after
  the call.
\<close>

definition server_error :: response where
  "server_error = json_response 500 (JsonError ''Server error'')"

definition handleSubscribe ::
  "jsstring \<Rightarrow> jsstring \<Rightarrow> (jsstring \<Rightarrow> jsstring) \<Rightarrow> request \<Rightarrow> env \<Rightarrow> response \<times> store" where
  "handleSubscribe uuid now ulower req e =
    (case body req of
       BodyRejects \<Rightarrow> (server_error, SUBSCRIBERS e)
     | BodyNull \<Rightarrow> (server_error, SUBSCRIBERS e)
     | BodyWith em \<Rightarrow>
         if \<not> ToBoolean em then (json_response 400 (JsonError ''Invalid email''), SUBSCRIBERS e)
         else (case ToString em of
             None \<Rightarrow> (server_error, SUBSCRIBERS e)
           | Some s \<Rightarrow>
               if \<not> isValidEmail s
               then (json_response 400 (JsonError ''Invalid email''), SUBSCRIBERS e)
               else (case em of
                   JString raw \<Rightarrow>
                     let normalizedEmail = trim (toLowerCase ulower raw);
                         existing = kv_get (SUBSCRIBERS e) normalizedEmail
                     in if truthy_text existing
                        then (json_response 200 (JsonMessage ''Already subscribed''), SUBSCRIBERS e)
                        else (json_response 200 (JsonMessage ''Subscribed successfully''),
                              kv_put (SUBSCRIBERS e) normalizedEmail
                                (JsonWith (JString uuid) (JString now)))
                 | _ \<Rightarrow> (server_error, SUBSCRIBERS e))))"

section \<open>Unsubscribe\<close>

text \<open>
  What \<open>JSON.parse(data)\<close> followed by the reads of \<open>parsed.token\<close> and
  \<open>parsed.subscribed_at\<close> gives: \<open>JSON.parse\<close> throws a \<open>SyntaxError\<close> on a
  text that is not JSON, and a property read of \<open>null\<close> throws a \<open>TypeError\<close>.
\<close>

fun JSON_parse :: "kvtext \<Rightarrow> exn + jsval \<times> jsval" where
  "JSON_parse EmptyText = Inl SyntaxError"
| "JSON_parse Unparseable = Inl SyntaxError"
| "JSON_parse JsonNull = Inl TypeError"
| "JSON_parse (JsonWith t s) = Inr (t, s)"

text \<open>
  The loop over \<open>list.keys\<close>. It has no handler for exceptions: the first one leaves
  the loop and the function. The result is the store and the flag \<open>found\<close>.
\<close>

fun unsubscribe_scan :: "jsstring \<Rightarrow> store \<Rightarrow> jsstring list \<Rightarrow> exn + store \<times> bool" where
  "unsubscribe_scan tok st [] = Inr (st, False)"
| "unsubscribe_scan tok st (k # ks) =
    (let data = kv_get st k in
     if truthy_text data
     then (case data of
         None \<Rightarrow> unsubscribe_scan tok st ks
       | Some d \<Rightarrow>
           (case JSON_parse d of
              Inl x \<Rightarrow> Inl x
            | Inr (t, s) \<Rightarrow>
                if strict_eq_string t tok then Inr (kv_delete st k, True)
                else unsubscribe_scan tok st ks))
     else unsubscribe_scan tok st ks)"

text \<open>\<open>!token\<close> holds of \<open>null\<close> (no such parameter) and of the empty string.\<close>

fun falsy_param :: "jsstring option \<Rightarrow> bool" where
  "falsy_param None = True"
| "falsy_param (Some s) = (s = [])"

definition handleUnsubscribe :: "request \<Rightarrow> env \<Rightarrow> (exn + response) \<times> store" where
  "handleUnsubscribe req e =
    (case param_token req of
       None \<Rightarrow> (Inr (html_response 400 (htmlPage ''Error'' ''Invalid unsubscribe link.'')),
                 SUBSCRIBERS e)
     | Some tok \<Rightarrow>
         if falsy_param (Some tok)
         then (Inr (html_response 400 (htmlPage ''Error'' ''Invalid unsubscribe link.'')),
               SUBSCRIBERS e)
         else (case unsubscribe_scan tok (SUBSCRIBERS e) (kv_list (SUBSCRIBERS e)) of
             Inl x \<Rightarrow> (Inl x, SUBSCRIBERS e)
           | Inr (st', found) \<Rightarrow>
               if found
               then (Inr (html_response 200
                       (htmlPage ''Unsubscribed'' ''You have been unsubscribed from job alerts.'')),
                     st')
               else (Inr (html_response 404
                       (htmlPage ''Not Found'' ''Subscription not found or already unsubscribed.'')),
                     st')))"

section \<open>ListSubscribers\<close>

text \<open>The loop that collects the entries; \<open>subscribers\<close> is the array built so far.\<close>

fun list_scan :: "store \<Rightarrow> jsstring list \<Rightarrow> subscriber list \<Rightarrow> exn + subscriber list" where
  "list_scan st [] subscribers = Inr subscribers"
| "list_scan st (k # ks) subscribers =
    (let data = kv_get st k in
     if truthy_text data
     then (case data of
         None \<Rightarrow> list_scan st ks subscribers
       | Some d \<Rightarrow>
           (case JSON_parse d of
              Inl x \<Rightarrow> Inl x
            | Inr (t, s) \<Rightarrow>
                list_scan st ks
                  (subscribers @ [\<lparr>email = k, token = t, subscribed_at = s\<rparr>])))
     else list_scan st ks subscribers)"

text \<open>
  \<open>key !== env.API_SECRET\<close>: the parameter is a string or \<open>null\<close>, the secret a string
  or \<open>undefined\<close>; they are strictly equal only when both are the same string.
\<close>

fun key_matches :: "jsstring option \<Rightarrow> jsstring option \<Rightarrow> bool" where
  "key_matches (Some k) (Some secret) = (k = secret)"
| "key_matches k secret = False"

definition handleListSubscribers :: "request \<Rightarrow> env \<Rightarrow> exn + response" where
  "handleListSubscribers req e =
    (if \<not> key_matches (param_key req) (API_SECRET e)
     then Inr \<lparr>status = 401, headers = [(''Content-Type'', ''application/json'')],
               content = JsonError ''Unauthorized''\<rparr>
     else (case list_scan (SUBSCRIBERS e) (kv_list (SUBSCRIBERS e)) [] of
         Inl x \<Rightarrow> Inl x
       | Inr subscribers \<Rightarrow>
           Inr \<lparr>status = 200, headers = [(''Content-Type'', ''application/json'')],
                 content = JsonSubscribers subscribers\<rparr>))"

section \<open>The router\<close>

definition fetch ::
  "jsstring \<Rightarrow> jsstring \<Rightarrow> (jsstring \<Rightarrow> jsstring) \<Rightarrow> request \<Rightarrow> env \<Rightarrow> (exn + response) \<times> store" where
  "fetch uuid now ulower req e =
    (if http_method req = js ''OPTIONS''
     then (Inr \<lparr>status = 200, headers = CORS_HEADERS, content = NoContent\<rparr>, SUBSCRIBERS e)
     else if pathname req = js ''/subscribe'' \<and> http_method req = js ''POST''
     then (case handleSubscribe uuid now ulower req e of (r, st') \<Rightarrow> (Inr r, st'))
     else if pathname req = js ''/unsubscribe'' \<and> http_method req = js ''GET''
     then handleUnsubscribe req e
     else if pathname req = js ''/subscribers'' \<and> http_method req = js ''GET''
     then (handleListSubscribers req e, SUBSCRIBERS e)
     else (Inr \<lparr>status = 404, headers = [], content = PlainText ''Not Found''\<rparr>, SUBSCRIBERS e))"

section \<open>Properties of store states and example data\<close>

text \<open>
  Case-insensitive equality of two strings: they have the same lower-case form.
\<close>

definition same_up_to_case :: "(jsstring \<Rightarrow> jsstring) \<Rightarrow> jsstring \<Rightarrow> jsstring \<Rightarrow> bool" where
  "same_up_to_case ulower a b = (toLowerCase ulower a = toLowerCase ulower b)"

definition ws_free :: "jsstring \<Rightarrow> bool" where
  "ws_free s = list_all (\<lambda>c. \<not> is_ws c) s"

text \<open>
  A stored value the scans read without an exception: the empty text, or a text that parses
  to a value other than \<open>null\<close>. Every value written by \<open>handleSubscribe\<close> is one.
\<close>

fun scannable :: "kvtext \<Rightarrow> bool" where
  "scannable EmptyText = True"
| "scannable Unparseable = False"
| "scannable JsonNull = False"
| "scannable (JsonWith t s) = True"

definition scannable_store :: "store \<Rightarrow> bool" where
  "scannable_store st = list_all (\<lambda>kv. scannable (snd kv)) st"

text \<open>The record's \<open>token\<close> field equals the supplied token.\<close>

fun has_token :: "jsstring \<Rightarrow> kvtext \<Rightarrow> bool" where
  "has_token tok (JsonWith t s) = strict_eq_string t tok"
| "has_token tok v = False"

definition example_env :: "store \<Rightarrow> env" where
  "example_env st = \<lparr>SUBSCRIBERS = st, API_SECRET = Some (js ''s3cret'')\<rparr>"

definition subscribe_request :: "parsed_body \<Rightarrow> request" where
  "subscribe_request b =
    \<lparr>http_method = js ''POST'', pathname = js ''/subscribe'', param_token = None, param_key = None,
     body = b\<rparr>"

definition unsubscribe_request :: "jsstring option \<Rightarrow> request" where
  "unsubscribe_request t =
    \<lparr>http_method = js ''GET'', pathname = js ''/unsubscribe'', param_token = t, param_key = None,
     body = BodyRejects\<rparr>"

definition list_request :: "jsstring option \<Rightarrow> request" where
  "list_request k =
    \<lparr>http_method = js ''GET'', pathname = js ''/subscribers'', param_token = None, param_key = k,
     body = BodyRejects\<rparr>"

definition example_record :: "string \<Rightarrow> kvtext" where
  "example_record t = JsonWith (JString (js t)) (JString (js ''2024-01-01T00:00:00.000Z''))"

definition unauthorized :: response where
  "unauthorized =
    \<lparr>status = 401, headers = [(''Content-Type'', ''application/json'')],
     content = JsonError ''Unauthorized''\<rparr>"

text \<open>The responses of \<open>handleUnsubscribe\<close> and the success response of \<open>handleListSubscribers\<close>.\<close>

definition unsubscribed_page :: response where
  "unsubscribed_page =
    html_response 200 (htmlPage ''Unsubscribed'' ''You have been unsubscribed from job alerts.'')"

definition not_found_page :: response where
  "not_found_page =
    html_response 404 (htmlPage ''Not Found'' ''Subscription not found or already unsubscribed.'')"

definition invalid_link_page :: response where
  "invalid_link_page = html_response 400 (htmlPage ''Error'' ''Invalid unsubscribe link.'')"

definition subscribers_response :: "subscriber list \<Rightarrow> response" where
  "subscribers_response es =
    \<lparr>status = 200, headers = [(''Content-Type'', ''application/json'')],
     content = JsonSubscribers es\<rparr>"

text \<open>The entry that the listing makes of a stored record; none for an empty value.\<close>

fun entry_of :: "jsstring \<times> kvtext \<Rightarrow> subscriber list" where
  "entry_of (k, JsonWith t s) = [\<lparr>email = k, token = t, subscribed_at = s\<rparr>]"
| "entry_of (k, v) = []"

text \<open>Example stores and an example request carrying both parameters.\<close>

definition two_records :: store where
  "two_records = [(js ''a@b.com'', example_record ''t1''), (js ''c@d.com'', example_record ''t2'')]"

definition malformed_first :: store where
  "malformed_first = [(js ''a@b.com'', Unparseable), (js ''c@d.com'', example_record ''t2'')]"

definition empty_first :: store where
  "empty_first = [(js ''a@b.com'', EmptyText), (js ''c@d.com'', example_record ''t2'')]"

definition scan_request :: request where
  "scan_request =
    \<lparr>http_method = js ''GET'', pathname = js ''/unsubscribe'', param_token = Some (js ''t2''),
     param_key = Some (js ''s3cret''), body = BodyRejects\<rparr>"

text \<open>
  A record at which the scan of Unsubscribe ends: one whose value the scan cannot read, or
  one whose token field equals the supplied token. \<open>matches_token\<close> is the second
  alone.
\<close>

definition stops_scan :: "jsstring \<Rightarrow> jsstring \<times> kvtext \<Rightarrow> bool" where
  "stops_scan tok kv = (\<not> scannable (snd kv) \<or> has_token tok (snd kv))"

definition matches_token :: "jsstring \<Rightarrow> jsstring \<times> kvtext \<Rightarrow> bool" where
  "matches_token tok kv = has_token tok (snd kv)"

definition malformed_last :: store where
  "malformed_last = [(js ''a@b.com'', example_record ''t1''), (js ''c@d.com'', Unparseable)]"

text \<open>
  The cross-origin headers among the headers of a response, and the headers that the router
  and the handlers give on each route.
\<close>

definition is_cors_header :: "string \<times> string \<Rightarrow> bool" where
  "is_cors_header h = (fst h \<in> set (map fst CORS_HEADERS))"

definition cors_headers_of :: "response \<Rightarrow> (string \<times> string) list" where
  "cors_headers_of r = filter is_cors_header (headers r)"

definition route_headers :: "request \<Rightarrow> (string \<times> string) list" where
  "route_headers req =
    (if http_method req = js ''OPTIONS'' then CORS_HEADERS
     else if pathname req = js ''/subscribe'' \<and> http_method req = js ''POST''
     then (''Content-Type'', ''application/json'') # CORS_HEADERS
     else if pathname req = js ''/unsubscribe'' \<and> http_method req = js ''GET''
     then [(''Content-Type'', ''text/html'')]
     else if pathname req = js ''/subscribers'' \<and> http_method req = js ''GET''
     then [(''Content-Type'', ''application/json'')]
     else [])"

section \<open>Facts about the pattern, trim and lower case\<close>

lemma re_match_list_all:
  "re_match items s \<Longrightarrow> (\<And>p c. Plus p \<in> set items \<Longrightarrow> p c \<Longrightarrow> Q c)
    \<Longrightarrow> (\<And>c. Lit c \<in> set items \<Longrightarrow> Q c) \<Longrightarrow> list_all Q s"
  by (induction items s rule: re_match.induct) auto

lemma valid_email_ws_free: "isValidEmail s \<Longrightarrow> ws_free s"
  unfolding isValidEmail_def ws_free_def
  by (erule re_match_list_all) (auto simp add: email_pattern_def not_ws_at_def is_ws_def)

lemma valid_email_nonempty: "isValidEmail s \<Longrightarrow> s \<noteq> []"
  by (auto simp add: isValidEmail_def email_pattern_def)

lemma ws_free_trim: "ws_free s \<Longrightarrow> trim s = s"
proof -
  assume a: "ws_free s"
  have d: "\<And>t. list_all (\<lambda>c. \<not> is_ws c) t \<Longrightarrow> dropWhile is_ws t = t"
    by (case_tac t) auto
  from a have "list_all (\<lambda>c. \<not> is_ws c) (rev s)" by (simp add: ws_free_def list_all_iff)
  with a show ?thesis by (simp add: trim_def d ws_free_def)
qed

lemma printable_not_ws: "0x21 \<le> c \<Longrightarrow> c \<le> 0x7E \<Longrightarrow> \<not> is_ws c"
  by (auto simp add: is_ws_def word_le_nat_alt)

lemma upper_range:
  assumes "0x41 \<le> c" "c \<le> (0x5A::16 word)"
  shows "0x61 \<le> c + 0x20 \<and> c + 0x20 \<le> 0x7A"
proof -
  from assms have b: "65 \<le> unat c" "unat c \<le> 90" by (simp_all add: word_le_nat_alt)
  then have "unat c + unat (0x20::16 word) < 2 ^ LENGTH(16)" by simp
  then have "unat (c + 0x20) = unat c + unat (0x20::16 word)" by (simp only: unat_add_lem)
  with b show ?thesis by (simp add: word_le_nat_alt)
qed

lemma ascii_lower_not_ws: "\<not> is_ws c \<Longrightarrow> \<not> is_ws (ascii_lower c)"
proof (cases "0x41 \<le> c \<and> c \<le> 0x5A")
  case True
  then have "0x61 \<le> c + 0x20 \<and> c + 0x20 \<le> 0x7A" by (simp add: upper_range)
  then have "0x21 \<le> c + 0x20 \<and> c + 0x20 \<le> 0x7E" by (auto simp add: word_le_nat_alt)
  then have "\<not> is_ws (c + 0x20)" by (simp add: printable_not_ws)
  with True show ?thesis by (simp add: ascii_lower_def)
next
  case False
  assume "\<not> is_ws c"
  with False show ?thesis by (auto simp add: ascii_lower_def)
qed

lemma ws_free_map_ascii_lower: "ws_free s \<Longrightarrow> ws_free (map ascii_lower s)"
  by (induction s) (auto simp add: ws_free_def ascii_lower_not_ws)

section \<open>Facts about the store and about Subscribe\<close>

lemma kv_get_put_same: "kv_get (kv_put st k v) k = Some v"
  by (simp add: kv_get_def kv_put_def update_conv')

lemma wf_store_put: "wf_store st \<Longrightarrow> wf_store (kv_put st k v)"
  by (simp add: wf_store_def kv_put_def distinct_update)

lemma truthy_text_key: "truthy_text (kv_get st k) \<Longrightarrow> k \<in> fst ` set st"
  by (cases "map_of st k") (auto simp add: kv_get_def dest: map_of_SomeD intro: rev_image_eqI)

lemma distinct_key_once:
  "distinct (map fst st) \<Longrightarrow> k \<in> fst ` set st \<Longrightarrow> length (filter (\<lambda>kv. fst kv = k) st) = 1"
proof (induction st)
  case Nil
  then show ?case by simp
next
  case (Cons x xs)
  show ?case
  proof (cases "fst x = k")
    case True
    with Cons.prems have "k \<notin> fst ` set xs" by auto
    then have "filter (\<lambda>kv. fst kv = k) xs = []" by (auto simp add: filter_empty_conv)
    with True show ?thesis by simp
  next
    case False
    with Cons show ?thesis by auto
  qed
qed

lemma subscribe_valid:
  assumes "isValidEmail raw" "body req = BodyWith (JString raw)"
  shows "handleSubscribe uuid now ulower req e =
    (if truthy_text (kv_get (SUBSCRIBERS e) (trim (toLowerCase ulower raw)))
     then (json_response 200 (JsonMessage ''Already subscribed''), SUBSCRIBERS e)
     else (json_response 200 (JsonMessage ''Subscribed successfully''),
           kv_put (SUBSCRIBERS e) (trim (toLowerCase ulower raw))
             (JsonWith (JString uuid) (JString now))))"
  using assms valid_email_nonempty [OF assms(1)]
  by (simp add: handleSubscribe_def Let_def)

lemma subscribe_then_same_key:
  assumes va: "isValidEmail a" and vb: "isValidEmail b"
    and key: "trim (toLowerCase ulower a) = trim (toLowerCase ulower b)"
    and ba: "body ra = BodyWith (JString a)" and bb: "body rb = BodyWith (JString b)"
    and wf: "wf_store (SUBSCRIBERS e)"
    and first: "handleSubscribe u n ulower ra e = (r1, st1)"
  shows "handleSubscribe u' n' ulower rb (e\<lparr>SUBSCRIBERS := st1\<rparr>)
           = (json_response 200 (JsonMessage ''Already subscribed''), st1)
         \<and> length (filter (\<lambda>kv. fst kv = trim (toLowerCase ulower a)) st1) = 1"
proof -
  let ?k = "trim (toLowerCase ulower a)"
  have t: "truthy_text (kv_get st1 ?k) \<and> wf_store st1"
    using first wf unfolding subscribe_valid [OF va ba]
    by (auto simp add: kv_get_put_same wf_store_put split: if_splits)
  then have "?k \<in> fst ` set st1" by (simp add: truthy_text_key)
  with t have "length (filter (\<lambda>kv. fst kv = ?k) st1) = 1"
    by (simp add: distinct_key_once wf_store_def)
  moreover have "body rb = BodyWith (JString b)" by (rule bb)
  ultimately show ?thesis
    using t key by (simp add: subscribe_valid [OF vb bb])
qed

section \<open>Facts about the scans and the handlers\<close>

lemma wf_store_get: "wf_store st \<Longrightarrow> (k, v) \<in> set st \<Longrightarrow> kv_get st k = Some v"
  by (simp add: wf_store_def kv_get_def)

lemma kv_get_mem: "kv_get st k = Some v \<Longrightarrow> (k, v) \<in> set st"
  by (simp add: kv_get_def map_of_SomeD)

lemma delete_remove1:
  "distinct (map fst st) \<Longrightarrow> (k, v) \<in> set st \<Longrightarrow> AList.delete k st = remove1 (k, v) st"
proof (induction st)
  case Nil
  then show ?case by simp
next
  case (Cons x xs)
  show ?case
  proof (cases "x = (k, v)")
    case True
    with Cons.prems have "k \<notin> fst ` set xs" by auto
    then have "AList.delete k xs = xs" by (simp add: delete_id)
    with True show ?thesis by simp
  next
    case False
    with Cons.prems have m: "(k, v) \<in> set xs" by auto
    with Cons.prems have "fst x \<noteq> k" by (cases x) force
    with Cons False m show ?thesis by (cases x) auto
  qed
qed

lemma unsubscribe_scan_step:
  "unsubscribe_scan tok st (k # ks) =
    (case kv_get st k of
       None \<Rightarrow> unsubscribe_scan tok st ks
     | Some EmptyText \<Rightarrow> unsubscribe_scan tok st ks
     | Some Unparseable \<Rightarrow> Inl SyntaxError
     | Some JsonNull \<Rightarrow> Inl TypeError
     | Some (JsonWith t s) \<Rightarrow>
         if strict_eq_string t tok then Inr (kv_delete st k, True)
         else unsubscribe_scan tok st ks)"
  by (simp add: Let_def split: option.splits kvtext.splits)

lemma list_scan_step:
  "list_scan st (k # ks) acc =
    (case kv_get st k of
       None \<Rightarrow> list_scan st ks acc
     | Some EmptyText \<Rightarrow> list_scan st ks acc
     | Some Unparseable \<Rightarrow> Inl SyntaxError
     | Some JsonNull \<Rightarrow> Inl TypeError
     | Some (JsonWith t s) \<Rightarrow>
         list_scan st ks (acc @ [\<lparr>email = k, token = t, subscribed_at = s\<rparr>]))"
  by (simp add: Let_def split: option.splits kvtext.splits)

lemma unsubscribe_scan_first_match:
  assumes "\<forall>kv \<in> set xs. kv_get st (fst kv) = Some (snd kv)"
    and "unsubscribe_scan tok st (map fst xs) = Inr (st', found)"
  shows "case find (\<lambda>kv. has_token tok (snd kv)) xs of
           None \<Rightarrow> st' = st \<and> \<not> found
         | Some kv \<Rightarrow> st' = kv_delete st (fst kv) \<and> found"
  using assms
proof (induction xs)
  case Nil
  then show ?case by simp
next
  case (Cons x xs)
  obtain k v where x: "x = (k, v)" by (cases x)
  with Cons.prems have g: "kv_get st k = Some v" by simp
  show ?case
    using Cons x g by (cases v) (auto simp add: unsubscribe_scan_step simp del: unsubscribe_scan.simps split: if_splits)
qed

lemma unsubscribe_scan_scannable:
  assumes "scannable_store st"
  shows "unsubscribe_scan tok st ks \<noteq> Inl x"
proof (induction ks)
  case Nil
  then show ?case by simp
next
  case (Cons k ks)
  show ?case
  proof (cases "kv_get st k")
    case None
    with Cons show ?thesis by (simp add: unsubscribe_scan_step del: unsubscribe_scan.simps)
  next
    case (Some v)
    then have "(k, v) \<in> set st" by (rule kv_get_mem)
    with assms have "scannable v" by (auto simp add: scannable_store_def list_all_iff)
    with Cons Some show ?thesis
      by (cases v) (auto simp add: unsubscribe_scan_step simp del: unsubscribe_scan.simps)
  qed
qed

lemma unsubscribe_scan_no_match:
  assumes "\<forall>kv \<in> set st. \<not> has_token tok (snd kv)"
  shows "unsubscribe_scan tok st ks = Inr (st, False) \<or> (\<exists>x. unsubscribe_scan tok st ks = Inl x)"
proof (induction ks)
  case Nil
  then show ?case by simp
next
  case (Cons k ks)
  show ?case
  proof (cases "kv_get st k")
    case None
    with Cons show ?thesis by (simp add: unsubscribe_scan_step del: unsubscribe_scan.simps)
  next
    case (Some v)
    then have "(k, v) \<in> set st" by (rule kv_get_mem)
    with assms have "\<not> has_token tok v" by force
    with Cons Some show ?thesis
      by (cases v) (auto simp add: unsubscribe_scan_step simp del: unsubscribe_scan.simps)
  qed
qed

lemma list_scan_entries:
  assumes "list_scan st ks acc = Inr es"
    and "\<forall>x \<in> set acc. kv_get st (email x) = Some (JsonWith (token x) (subscribed_at x))"
  shows "\<forall>x \<in> set es. kv_get st (email x) = Some (JsonWith (token x) (subscribed_at x))"
  using assms
proof (induction ks arbitrary: acc)
  case Nil
  then show ?case by simp
next
  case (Cons k ks)
  show ?case
  proof (cases "kv_get st k")
    case None
    with Cons show ?thesis by (simp add: list_scan_step del: list_scan.simps)
  next
    case (Some v)
    show ?thesis
    proof (cases v)
      case (JsonWith t s)
      with Some Cons.prems(1)
      have "list_scan st ks (acc @ [\<lparr>email = k, token = t, subscribed_at = s\<rparr>]) = Inr es"
        by (simp add: list_scan_step del: list_scan.simps)
      moreover have "\<forall>x \<in> set (acc @ [\<lparr>email = k, token = t, subscribed_at = s\<rparr>]).
          kv_get st (email x) = Some (JsonWith (token x) (subscribed_at x))"
        using Cons.prems(2) Some JsonWith by simp
      ultimately show ?thesis by (rule Cons.IH)
    next
      case EmptyText
      with Some Cons.prems(1) have "list_scan st ks acc = Inr es"
        by (simp add: list_scan_step del: list_scan.simps)
      then show ?thesis using Cons.prems(2) by (rule Cons.IH)
    next
      case Unparseable
      with Some Cons.prems(1) show ?thesis by (simp add: list_scan_step del: list_scan.simps)
    next
      case JsonNull
      with Some Cons.prems(1) show ?thesis by (simp add: list_scan_step del: list_scan.simps)
    qed
  qed
qed

lemma list_scan_scannable:
  assumes "\<forall>kv \<in> set xs. kv_get st (fst kv) = Some (snd kv)"
    and "list_all (\<lambda>kv. scannable (snd kv)) xs"
  shows "list_scan st (map fst xs) acc = Inr (acc @ concat (map entry_of xs))"
  using assms
proof (induction xs arbitrary: acc)
  case Nil
  then show ?case by simp
next
  case (Cons x xs)
  obtain k v where x: "x = (k, v)" by (cases x)
  with Cons.prems have g: "kv_get st k = Some v" by simp
  show ?case
    using Cons x g by (cases v) (auto simp add: list_scan_step simp del: list_scan.simps)
qed

lemma handleUnsubscribe_token:
  assumes "param_token req = Some tok" "tok \<noteq> []"
  shows "handleUnsubscribe req e =
    (case unsubscribe_scan tok (SUBSCRIBERS e) (map fst (SUBSCRIBERS e)) of
       Inl x \<Rightarrow> (Inl x, SUBSCRIBERS e)
     | Inr (st', found) \<Rightarrow> (Inr (if found then unsubscribed_page else not_found_page), st'))"
  using assms
  by (auto simp add: handleUnsubscribe_def kv_list_def unsubscribed_page_def not_found_page_def
      split: sum.splits)

lemma handleListSubscribers_authorized:
  assumes "key_matches (param_key req) (API_SECRET e)"
  shows "handleListSubscribers req e =
    (case list_scan (SUBSCRIBERS e) (map fst (SUBSCRIBERS e)) [] of
       Inl x \<Rightarrow> Inl x
     | Inr es \<Rightarrow> Inr (subscribers_response es))"
  using assms
  by (simp add: handleListSubscribers_def kv_list_def subscribers_response_def split: sum.splits)

lemma wf_store_gets: "wf_store st \<Longrightarrow> \<forall>kv \<in> set st. kv_get st (fst kv) = Some (snd kv)"
  by (auto simp add: wf_store_get)

lemma unsubscribe_scan_malformed:
  assumes "\<forall>kv \<in> set xs. kv_get st (fst kv) = Some (snd kv)"
    and "find (\<lambda>kv. \<not> scannable (snd kv) \<or> has_token tok (snd kv)) xs = Some (k, Unparseable)"
  shows "unsubscribe_scan tok st (map fst xs) = Inl SyntaxError"
  using assms
proof (induction xs)
  case Nil
  then show ?case by simp
next
  case (Cons x xs)
  obtain k' v where x: "x = (k', v)" by (cases x)
  with Cons.prems have g: "kv_get st k' = Some v" by simp
  show ?case
    using Cons x g
    by (cases v) (auto simp add: unsubscribe_scan_step simp del: unsubscribe_scan.simps split: if_splits)
qed

lemma list_scan_malformed:
  assumes "\<forall>kv \<in> set xs. kv_get st (fst kv) = Some (snd kv)"
    and "find (\<lambda>kv. \<not> scannable (snd kv)) xs = Some (k, Unparseable)"
  shows "list_scan st (map fst xs) acc = Inl SyntaxError"
  using assms
proof (induction xs arbitrary: acc)
  case Nil
  then show ?case by simp
next
  case (Cons x xs)
  obtain k' v where x: "x = (k', v)" by (cases x)
  with Cons.prems have g: "kv_get st k' = Some v" by simp
  show ?case
    using Cons x g
    by (cases v) (auto simp add: list_scan_step simp del: list_scan.simps split: if_splits)
qed

lemma handleUnsubscribe_html:
  "fst (handleUnsubscribe req e) = Inr r \<Longrightarrow> \<exists>st c. r = html_response st c"
  by (auto simp add: handleUnsubscribe_def split: option.splits sum.splits if_splits prod.splits)

lemma scannable_store_put:
  "scannable_store st \<Longrightarrow> scannable v \<Longrightarrow> scannable_store (kv_put st k v)"
  by (induction st) (auto simp add: scannable_store_def kv_put_def)

lemma scannable_store_delete: "scannable_store st \<Longrightarrow> scannable_store (kv_delete st k)"
  by (induction st) (auto simp add: scannable_store_def kv_delete_def)

lemma wf_store_delete: "wf_store st \<Longrightarrow> wf_store (kv_delete st k)"
  by (simp add: wf_store_def kv_delete_def distinct_delete)

lemma subscribe_keeps_store_readable:
  assumes "wf_store (SUBSCRIBERS e)" "scannable_store (SUBSCRIBERS e)"
  shows "wf_store (snd (handleSubscribe u n ulower req e))
         \<and> scannable_store (snd (handleSubscribe u n ulower req e))"
  using assms
  by (simp add: handleSubscribe_def Let_def wf_store_put scannable_store_put
      split: parsed_body.splits option.splits jsval.splits)

lemma unsubscribe_scan_keeps_store_readable:
  "wf_store st \<Longrightarrow> scannable_store st \<Longrightarrow> unsubscribe_scan tok st ks = Inr (st', found)
    \<Longrightarrow> wf_store st' \<and> scannable_store st'"
proof (induction ks)
  case Nil
  then show ?case by simp
next
  case (Cons k ks)
  show ?case
  proof (cases "kv_get st k")
    case None
    with Cons show ?thesis by (simp add: unsubscribe_scan_step del: unsubscribe_scan.simps)
  next
    case (Some v)
    with Cons show ?thesis
      by (cases v)
        (auto simp add: unsubscribe_scan_step wf_store_delete scannable_store_delete
          simp del: unsubscribe_scan.simps split: if_splits)
  qed
qed

lemma unsubscribe_keeps_store_readable:
  assumes "wf_store (SUBSCRIBERS e)" "scannable_store (SUBSCRIBERS e)"
  shows "wf_store (snd (handleUnsubscribe req e))
         \<and> scannable_store (snd (handleUnsubscribe req e))"
  using assms unsubscribe_scan_keeps_store_readable [of "SUBSCRIBERS e"]
  by (auto simp add: handleUnsubscribe_def split: option.splits sum.splits prod.splits)

lemma unsubscribe_scan_exact:
  assumes "\<forall>kv \<in> set xs. kv_get st (fst kv) = Some (snd kv)"
  shows "unsubscribe_scan tok st (map fst xs) =
    (case find (stops_scan tok) xs of
       None \<Rightarrow> Inr (st, False)
     | Some kv \<Rightarrow>
         (case JSON_parse (snd kv) of
            Inl x \<Rightarrow> Inl x
          | Inr p \<Rightarrow> Inr (kv_delete st (fst kv), True)))"
  using assms
proof (induction xs)
  case Nil
  then show ?case by simp
next
  case (Cons x xs)
  obtain k v where x: "x = (k, v)" by (cases x)
  with Cons.prems have g: "kv_get st k = Some v" by simp
  show ?case
    using Cons x g
    by (cases v)
      (auto simp add: unsubscribe_scan_step stops_scan_def simp del: unsubscribe_scan.simps)
qed

lemma find_stops_scan_mem:
  "find (stops_scan tok) st = Some kv \<Longrightarrow> kv \<in> set st"
  by (auto simp add: find_Some_iff)

lemma first_stop_parsed_is_first_match:
  "find (stops_scan tok) st = Some kv \<Longrightarrow> JSON_parse (snd kv) = Inr p
    \<Longrightarrow> find (matches_token tok) st = Some kv"
proof (induction st)
  case Nil
  then show ?case by simp
next
  case (Cons x xs)
  show ?case
  proof (cases "stops_scan tok x")
    case True
    with Cons.prems have "x = kv" by simp
    with True Cons.prems(2) show ?thesis
      by (cases "snd kv") (auto simp add: stops_scan_def matches_token_def)
  next
    case False
    then have "\<not> matches_token tok x" by (simp add: stops_scan_def matches_token_def)
    with False Cons show ?thesis by simp
  qed
qed

lemma headers_handleSubscribe:
  "headers (fst (handleSubscribe u n ulower req e)) = (''Content-Type'', ''application/json'') # CORS_HEADERS"
  by (simp add: handleSubscribe_def server_error_def json_response_def Let_def
      split: parsed_body.splits option.splits jsval.splits)

lemma headers_handleUnsubscribe:
  assumes "fst (handleUnsubscribe req e) = Inr r"
  shows "headers r = [(''Content-Type'', ''text/html'')]"
proof -
  from assms obtain st c where "r = html_response st c"
    using handleUnsubscribe_html by blast
  then show ?thesis by (simp add: html_response_def)
qed

lemma headers_handleListSubscribers:
  "handleListSubscribers req e = Inr r \<Longrightarrow> headers r = [(''Content-Type'', ''application/json'')]"
  by (auto simp add: handleListSubscribers_def split: sum.splits if_splits)

lemma fetch_headers:
  assumes "fst (fetch u n ulower req e) = Inr r"
  shows "headers r = route_headers req"
proof (cases "http_method req = js ''OPTIONS''")
  case True
  with assms show ?thesis by (auto simp add: fetch_def route_headers_def)
next
  case no: False
  show ?thesis
  proof (cases "pathname req = js ''/subscribe'' \<and> http_method req = js ''POST''")
    case True
    with assms no headers_handleSubscribe [of u n ulower req e] show ?thesis
      by (auto simp add: fetch_def route_headers_def split: prod.splits)
  next
    case False
    with assms no headers_handleUnsubscribe [of req e r] headers_handleListSubscribers [of req e r]
    show ?thesis
      by (auto simp add: fetch_def route_headers_def split: if_splits)
  qed
qed

lemma cors_headers_by_route:
  assumes "fst (fetch u n ulower req e) = Inr r"
  shows "cors_headers_of r =
    (if http_method req = js ''OPTIONS''
        \<or> (pathname req = js ''/subscribe'' \<and> http_method req = js ''POST'')
     then CORS_HEADERS else [])"
  using fetch_headers [OF assms]
  by (simp add: cors_headers_of_def route_headers_def is_cors_header_def CORS_HEADERS_def)

section \<open>ListSubscribers: a wrong secret\<close>

text \<open>
  C8. When the supplied secret is absent or is not exactly the configured admin secret,
  ListSubscribers answers 401 with the body \<open>{error: 'Unauthorized'}\<close>, and this
  answer is the same whatever the store holds.
\<close>

theorem list_wrong_secret_unauthorized:
  assumes "param_key req = None \<or> param_key req \<noteq> API_SECRET e"
  shows "handleListSubscribers req (e\<lparr>SUBSCRIBERS := st\<rparr>) = Inr unauthorized
         \<and> status unauthorized = 401"
proof -
  have "\<not> key_matches (param_key req) (API_SECRET e)"
    using assms by (cases "param_key req"; cases "API_SECRET e") auto
  then show ?thesis
    by (simp add: handleListSubscribers_def unauthorized_def)
qed

theorem list_wrong_secret_unauthorized_witness:
  "(param_key (list_request (Some (js ''guess''))) = None
      \<or> param_key (list_request (Some (js ''guess''))) \<noteq> API_SECRET (example_env []))
   \<and> handleListSubscribers (list_request (Some (js ''guess'')))
        ((example_env [])\<lparr>SUBSCRIBERS := [(js ''a@b.com'', example_record ''t1'')]\<rparr>)
      = Inr unauthorized"
  using list_wrong_secret_unauthorized
    [of "list_request (Some (js ''guess''))" "example_env []"
        "[(js ''a@b.com'', example_record ''t1'')]"]
  by (simp add: list_request_def example_env_def js_def)

section \<open>Accepted emails hold no white space\<close>

text \<open>
  C10. A string accepted by the validation of Subscribe holds no white-space code unit, so
  \<open>trim\<close> leaves it as it is, and it leaves its lower-case form as it is: the storage key
  is the lower-cased email. For an email with a code unit outside ASCII this uses that the
  Unicode lower-casing brings no white space into a string that has none.
\<close>

theorem accepted_email_trim_is_noop:
  assumes "isValidEmail s"
    and "list_all is_ascii s \<or> (\<forall>t. ws_free t \<longrightarrow> ws_free (ulower t))"
  shows "ws_free s \<and> trim s = s \<and> trim (toLowerCase ulower s) = toLowerCase ulower s"
proof -
  have w: "ws_free s" using assms(1) by (rule valid_email_ws_free)
  have "ws_free (toLowerCase ulower s)"
  proof (cases "list_all is_ascii s")
    case True
    with w show ?thesis by (simp add: toLowerCase_def ws_free_map_ascii_lower)
  next
    case False
    with assms(2) w show ?thesis by (simp add: toLowerCase_def)
  qed
  with w show ?thesis by (simp add: ws_free_trim)
qed

theorem accepted_email_trim_is_noop_witness:
  "isValidEmail (js ''Someone@Example.COM'')
   \<and> list_all is_ascii (js ''Someone@Example.COM'')
   \<and> trim (js ''Someone@Example.COM'') = js ''Someone@Example.COM''
   \<and> trim (toLowerCase id (js ''Someone@Example.COM'')) = js ''someone@example.com''"
proof -
  have v: "isValidEmail (js ''Someone@Example.COM'')" by code_simp
  have a: "list_all is_ascii (js ''Someone@Example.COM'')" by code_simp
  have l: "toLowerCase id (js ''Someone@Example.COM'') = js ''someone@example.com''" by code_simp
  from a have h: "list_all is_ascii (js ''Someone@Example.COM'')
      \<or> (\<forall>t. ws_free t \<longrightarrow> ws_free (id t))" by simp
  show ?thesis
    using accepted_email_trim_is_noop [where ulower = id, OF v h] v a l by simp
qed

section \<open>Subscribing twice\<close>

text \<open>
  C4. For a valid email, after one Subscribe a second Subscribe of the same email (with
  whatever fresh token and time) answers \<open>Already subscribed\<close>, changes nothing, and the
  store holds exactly one record under the normalized key.
\<close>

theorem subscribe_twice_already_subscribed:
  assumes "isValidEmail raw"
    and "body req = BodyWith (JString raw)"
    and "wf_store (SUBSCRIBERS e)"
    and "handleSubscribe u n ulower req e = (r1, st1)"
  shows "handleSubscribe u' n' ulower req (e\<lparr>SUBSCRIBERS := st1\<rparr>)
           = (json_response 200 (JsonMessage ''Already subscribed''), st1)
         \<and> length (filter (\<lambda>kv. fst kv = trim (toLowerCase ulower raw)) st1) = 1"
  using assms by (intro subscribe_then_same_key [where a = raw and b = raw and ra = req]) simp_all

theorem subscribe_twice_already_subscribed_witness:
  "isValidEmail (js ''a@b.com'')
   \<and> wf_store []
   \<and> handleSubscribe (js ''u1'') (js ''d1'') id
        (subscribe_request (BodyWith (JString (js ''a@b.com'')))) (example_env [])
      = (json_response 200 (JsonMessage ''Subscribed successfully''),
         [(js ''a@b.com'', JsonWith (JString (js ''u1'')) (JString (js ''d1'')))])
   \<and> handleSubscribe (js ''u2'') (js ''d2'') id
        (subscribe_request (BodyWith (JString (js ''a@b.com''))))
        (example_env [(js ''a@b.com'', JsonWith (JString (js ''u1'')) (JString (js ''d1'')))])
      = (json_response 200 (JsonMessage ''Already subscribed''),
         [(js ''a@b.com'', JsonWith (JString (js ''u1'')) (JString (js ''d1'')))])"
proof -
  have v: "isValidEmail (js ''a@b.com'')" by code_simp
  have b: "body (subscribe_request (BodyWith (JString (js ''a@b.com''))))
      = BodyWith (JString (js ''a@b.com''))"
    by (simp add: subscribe_request_def)
  have w: "wf_store (SUBSCRIBERS (example_env []))" by (simp add: example_env_def wf_store_def)
  have f: "handleSubscribe (js ''u1'') (js ''d1'') id
        (subscribe_request (BodyWith (JString (js ''a@b.com'')))) (example_env [])
      = (json_response 200 (JsonMessage ''Subscribed successfully''),
         [(js ''a@b.com'', JsonWith (JString (js ''u1'')) (JString (js ''d1'')))])"
    by code_simp
  show ?thesis
    using subscribe_twice_already_subscribed [OF v b w f, of "js ''u2''" "js ''d2''"] v f
    by (simp add: example_env_def wf_store_def)
qed

section \<open>Emails that differ in case or in surrounding white space\<close>

text \<open>
  C2. The emails \<open>" A@B.com "\<close> and \<open>"a@b.com"\<close> differ only in letter case and
  surrounding white space and have the same normalized form, the storage key. But the
  validation runs on the raw input, before \<open>trim\<close>, and its pattern admits no white
  space: after subscribing \<open>"a@b.com"\<close>, subscribing \<open>" A@B.com "\<close> answers 400
  \<open>Invalid email\<close>, not \<open>Already subscribed\<close>.
\<close>

theorem subscribe_padded_email_rejected:
  "trim (toLowerCase id (js '' A@B.com '')) = js ''a@b.com''
   \<and> handleSubscribe (js ''u1'') (js ''d1'') id
        (subscribe_request (BodyWith (JString (js ''a@b.com'')))) (example_env [])
      = (json_response 200 (JsonMessage ''Subscribed successfully''),
         [(js ''a@b.com'', JsonWith (JString (js ''u1'')) (JString (js ''d1'')))])
   \<and> handleSubscribe (js ''u2'') (js ''d2'') id
        (subscribe_request (BodyWith (JString (js '' A@B.com ''))))
        (example_env [(js ''a@b.com'', JsonWith (JString (js ''u1'')) (JString (js ''d1'')))])
      = (json_response 400 (JsonError ''Invalid email''),
         [(js ''a@b.com'', JsonWith (JString (js ''u1'')) (JString (js ''d1'')))])
   \<and> json_response 400 (JsonError ''Invalid email'')
      \<noteq> json_response 200 (JsonMessage ''Already subscribed'')"
proof -
  have k: "trim (toLowerCase id (js '' A@B.com '')) = js ''a@b.com''" by code_simp
  have f: "handleSubscribe (js ''u1'') (js ''d1'') id
        (subscribe_request (BodyWith (JString (js ''a@b.com'')))) (example_env [])
      = (json_response 200 (JsonMessage ''Subscribed successfully''),
         [(js ''a@b.com'', JsonWith (JString (js ''u1'')) (JString (js ''d1'')))])"
    by code_simp
  have s: "handleSubscribe (js ''u2'') (js ''d2'') id
        (subscribe_request (BodyWith (JString (js '' A@B.com ''))))
        (example_env [(js ''a@b.com'', JsonWith (JString (js ''u1'')) (JString (js ''d1'')))])
      = (json_response 400 (JsonError ''Invalid email''),
         [(js ''a@b.com'', JsonWith (JString (js ''u1'')) (JString (js ''d1'')))])"
    by code_simp
  have d: "json_response 400 (JsonError ''Invalid email'')
      \<noteq> json_response 200 (JsonMessage ''Already subscribed'')"
    by (simp add: json_response_def)
  from k f s d show ?thesis by (intro conjI)
qed

text \<open>
  The part of the property about letter case holds. For two valid emails with the same
  lower-case form, Subscribe uses the same storage key: subscribing one and then the other
  answers \<open>Already subscribed\<close> on the second call, and the store holds exactly one
  record under that key.
\<close>

lemma subscribe_same_up_to_case:
  assumes "isValidEmail a" and "isValidEmail b"
    and "same_up_to_case ulower a b"
    and "body ra = BodyWith (JString a)" and "body rb = BodyWith (JString b)"
    and "wf_store (SUBSCRIBERS e)"
    and "handleSubscribe u n ulower ra e = (r1, st1)"
  shows "trim (toLowerCase ulower a) = trim (toLowerCase ulower b)
         \<and> handleSubscribe u' n' ulower rb (e\<lparr>SUBSCRIBERS := st1\<rparr>)
           = (json_response 200 (JsonMessage ''Already subscribed''), st1)
         \<and> length (filter (\<lambda>kv. fst kv = trim (toLowerCase ulower a)) st1) = 1"
proof -
  from assms(3) have k: "trim (toLowerCase ulower a) = trim (toLowerCase ulower b)"
    by (simp add: same_up_to_case_def)
  from subscribe_then_same_key [OF assms(1) assms(2) k assms(4) assms(5) assms(6) assms(7)] k
  show ?thesis by simp
qed

lemma subscribe_same_up_to_case_example:
  "isValidEmail (js ''a@b.com'') \<and> isValidEmail (js ''A@B.com'')
   \<and> same_up_to_case id (js ''a@b.com'') (js ''A@B.com'')
   \<and> handleSubscribe (js ''u2'') (js ''d2'') id
        (subscribe_request (BodyWith (JString (js ''A@B.com''))))
        (example_env [(js ''a@b.com'', JsonWith (JString (js ''u1'')) (JString (js ''d1'')))])
      = (json_response 200 (JsonMessage ''Already subscribed''),
         [(js ''a@b.com'', JsonWith (JString (js ''u1'')) (JString (js ''d1'')))])"
proof -
  have va: "isValidEmail (js ''a@b.com'')" by code_simp
  have vb: "isValidEmail (js ''A@B.com'')" by code_simp
  have c: "same_up_to_case id (js ''a@b.com'') (js ''A@B.com'')" by code_simp
  have ba: "body (subscribe_request (BodyWith (JString (js ''a@b.com''))))
      = BodyWith (JString (js ''a@b.com''))"
    by (simp add: subscribe_request_def)
  have bb: "body (subscribe_request (BodyWith (JString (js ''A@B.com''))))
      = BodyWith (JString (js ''A@B.com''))"
    by (simp add: subscribe_request_def)
  have w: "wf_store (SUBSCRIBERS (example_env []))" by (simp add: example_env_def wf_store_def)
  have f: "handleSubscribe (js ''u1'') (js ''d1'') id
        (subscribe_request (BodyWith (JString (js ''a@b.com'')))) (example_env [])
      = (json_response 200 (JsonMessage ''Subscribed successfully''),
         [(js ''a@b.com'', JsonWith (JString (js ''u1'')) (JString (js ''d1'')))])"
    by code_simp
  show ?thesis
    using subscribe_same_up_to_case [OF va vb c ba bb w f, of "js ''u2''" "js ''d2''"] va vb c
    by (simp add: example_env_def)
qed

section \<open>Stored values that are not JSON\<close>

text \<open>
  A stored value that is not JSON is not skipped: with such a record first in the store, an
  Unsubscribe whose token matches the record behind it ends with a \<open>SyntaxError\<close> and
  deletes nothing, and an authorized ListSubscribers ends with the same exception.
\<close>

theorem malformed_record_aborts_counterexample:
  "handleUnsubscribe (unsubscribe_request (Some (js ''t2''))) (example_env malformed_first)
     = (Inl SyntaxError, malformed_first)
   \<and> handleListSubscribers (list_request (Some (js ''s3cret''))) (example_env malformed_first)
     = Inl SyntaxError"
proof -
  have a: "handleUnsubscribe (unsubscribe_request (Some (js ''t2''))) (example_env malformed_first)
     = (Inl SyntaxError, malformed_first)"
    by code_simp
  have b: "handleListSubscribers (list_request (Some (js ''s3cret''))) (example_env malformed_first)
     = Inl SyntaxError"
    by code_simp
  from a b show ?thesis by (rule conjI)
qed

text \<open>
  C1, as amended. In both scans a record whose stored value is empty, or for which the store
  returns no value, is skipped and the scan goes on with the next key. A value that is not
  JSON is not skipped: it ends the request with a \<open>SyntaxError\<close> when the scan reaches
  it, that is, when it is the first value the scan cannot read and, for Unsubscribe, comes
  before the first matching record (the store stays as it is).
\<close>

theorem scan_skips_empty_aborts_on_malformed:
  assumes wf: "wf_store (SUBSCRIBERS e)"
  shows "(kv_get st k = None \<or> kv_get st k = Some EmptyText \<longrightarrow>
            unsubscribe_scan tok st (k # ks) = unsubscribe_scan tok st ks
            \<and> list_scan st (k # ks) acc = list_scan st ks acc)
         \<and> (param_token req = Some tok \<and> tok \<noteq> []
            \<and> find (\<lambda>kv. \<not> scannable (snd kv) \<or> has_token tok (snd kv)) (SUBSCRIBERS e)
                = Some (k1, Unparseable)
            \<longrightarrow> handleUnsubscribe req e = (Inl SyntaxError, SUBSCRIBERS e))
         \<and> (key_matches (param_key req) (API_SECRET e)
            \<and> find (\<lambda>kv. \<not> scannable (snd kv)) (SUBSCRIBERS e) = Some (k2, Unparseable)
            \<longrightarrow> handleListSubscribers req e = Inl SyntaxError)"
proof (intro conjI impI)
  assume "kv_get st k = None \<or> kv_get st k = Some EmptyText"
  then show "unsubscribe_scan tok st (k # ks) = unsubscribe_scan tok st ks"
    by (auto simp add: unsubscribe_scan_step simp del: unsubscribe_scan.simps)
next
  assume "kv_get st k = None \<or> kv_get st k = Some EmptyText"
  then show "list_scan st (k # ks) acc = list_scan st ks acc"
    by (auto simp add: list_scan_step simp del: list_scan.simps)
next
  assume a: "param_token req = Some tok \<and> tok \<noteq> []
            \<and> find (\<lambda>kv. \<not> scannable (snd kv) \<or> has_token tok (snd kv)) (SUBSCRIBERS e)
                = Some (k1, Unparseable)"
  then have "unsubscribe_scan tok (SUBSCRIBERS e) (map fst (SUBSCRIBERS e)) = Inl SyntaxError"
    using wf_store_gets [OF wf] by (intro unsubscribe_scan_malformed) auto
  with a show "handleUnsubscribe req e = (Inl SyntaxError, SUBSCRIBERS e)"
    by (simp add: handleUnsubscribe_token)
next
  assume a: "key_matches (param_key req) (API_SECRET e)
            \<and> find (\<lambda>kv. \<not> scannable (snd kv)) (SUBSCRIBERS e) = Some (k2, Unparseable)"
  then have "list_scan (SUBSCRIBERS e) (map fst (SUBSCRIBERS e)) [] = Inl SyntaxError"
    using wf_store_gets [OF wf] by (intro list_scan_malformed) auto
  with a show "handleListSubscribers req e = Inl SyntaxError"
    by (simp add: handleListSubscribers_authorized)
qed

theorem scan_skips_empty_aborts_on_malformed_witness:
  "wf_store malformed_first
   \<and> kv_get empty_first (js ''a@b.com'') = Some EmptyText
   \<and> kv_get empty_first (js ''x@y.zz'') = None
   \<and> unsubscribe_scan (js ''t2'') empty_first [js ''x@y.zz'', js ''c@d.com'']
      = unsubscribe_scan (js ''t2'') empty_first [js ''c@d.com'']
   \<and> unsubscribe_scan (js ''t2'') empty_first [js ''a@b.com'', js ''c@d.com'']
      = unsubscribe_scan (js ''t2'') empty_first [js ''c@d.com'']
   \<and> list_scan empty_first [js ''a@b.com'', js ''c@d.com''] []
      = list_scan empty_first [js ''c@d.com''] []
   \<and> handleUnsubscribe scan_request (example_env malformed_first)
      = (Inl SyntaxError, malformed_first)
   \<and> handleListSubscribers scan_request (example_env malformed_first) = Inl SyntaxError"
proof -
  have w: "wf_store (SUBSCRIBERS (example_env malformed_first))" by code_simp
  have g: "kv_get empty_first (js ''a@b.com'') = Some EmptyText" by code_simp
  have t: "param_token scan_request = Some (js ''t2'') \<and> js ''t2'' \<noteq> []
      \<and> find (\<lambda>kv. \<not> scannable (snd kv) \<or> has_token (js ''t2'') (snd kv))
          (SUBSCRIBERS (example_env malformed_first)) = Some (js ''a@b.com'', Unparseable)"
    by code_simp
  have k: "key_matches (param_key scan_request) (API_SECRET (example_env malformed_first))
      \<and> find (\<lambda>kv. \<not> scannable (snd kv)) (SUBSCRIBERS (example_env malformed_first))
          = Some (js ''a@b.com'', Unparseable)"
    by code_simp
  have e: "SUBSCRIBERS (example_env malformed_first) = malformed_first"
    by (simp add: example_env_def)
  note th = scan_skips_empty_aborts_on_malformed [OF w, of empty_first "js ''a@b.com''"
      "js ''t2''" "[js ''c@d.com'']" "[]" scan_request "js ''a@b.com''" "js ''a@b.com''"]
  have g0: "kv_get empty_first (js ''x@y.zz'') = None" by code_simp
  from scan_skips_empty_aborts_on_malformed [OF w, of empty_first "js ''x@y.zz''"
      "js ''t2''" "[js ''c@d.com'']" "[]" scan_request "js ''a@b.com''" "js ''a@b.com''"] g0
  have a0: "unsubscribe_scan (js ''t2'') empty_first [js ''x@y.zz'', js ''c@d.com'']
      = unsubscribe_scan (js ''t2'') empty_first [js ''c@d.com'']"
    by blast
  from th g have a: "unsubscribe_scan (js ''t2'') empty_first [js ''a@b.com'', js ''c@d.com'']
      = unsubscribe_scan (js ''t2'') empty_first [js ''c@d.com'']
   \<and> list_scan empty_first [js ''a@b.com'', js ''c@d.com''] []
      = list_scan empty_first [js ''c@d.com''] []"
    by blast
  from th t have b: "handleUnsubscribe scan_request (example_env malformed_first)
      = (Inl SyntaxError, SUBSCRIBERS (example_env malformed_first))"
    by blast
  from th k have c: "handleListSubscribers scan_request (example_env malformed_first)
      = Inl SyntaxError"
    by blast
  from w g g0 a0 a b c e show ?thesis by simp
qed

section \<open>ListSubscribers: the entries\<close>

text \<open>
  C9. Every entry of an authorized listing comes from a stored record: the record under the
  key \<open>email\<close> of the entry holds the entry's \<open>token\<close> and \<open>subscribed_at\<close>.
  On a store with distinct keys whose values can all be read, the listing succeeds and is the
  list of the entries of the records in store order.
\<close>

theorem list_entries_match_records:
  assumes "key_matches (param_key req) (API_SECRET e)"
  shows "(\<forall>r. handleListSubscribers req e = Inr r \<longrightarrow>
            (\<exists>es. r = subscribers_response es
               \<and> (\<forall>x \<in> set es. kv_get (SUBSCRIBERS e) (email x)
                      = Some (JsonWith (token x) (subscribed_at x)))))
         \<and> (wf_store (SUBSCRIBERS e) \<and> scannable_store (SUBSCRIBERS e) \<longrightarrow>
              handleListSubscribers req e
                = Inr (subscribers_response (concat (map entry_of (SUBSCRIBERS e)))))"
proof -
  let ?st = "SUBSCRIBERS e"
  note unf = handleListSubscribers_authorized [OF assms]
  have a: "\<And>r. handleListSubscribers req e = Inr r \<Longrightarrow>
            (\<exists>es. r = subscribers_response es
               \<and> (\<forall>x \<in> set es. kv_get ?st (email x) = Some (JsonWith (token x) (subscribed_at x))))"
  proof -
    fix r assume r: "handleListSubscribers req e = Inr r"
    then obtain es where es: "list_scan ?st (map fst ?st) [] = Inr es" "r = subscribers_response es"
      by (auto simp add: unf split: sum.splits)
    from es(1) have "\<forall>x \<in> set es. kv_get ?st (email x) = Some (JsonWith (token x) (subscribed_at x))"
      by (rule list_scan_entries) simp
    with es(2) show "\<exists>es. r = subscribers_response es
               \<and> (\<forall>x \<in> set es. kv_get ?st (email x) = Some (JsonWith (token x) (subscribed_at x)))"
      by blast
  qed
  have b: "wf_store ?st \<and> scannable_store ?st \<Longrightarrow>
      handleListSubscribers req e = Inr (subscribers_response (concat (map entry_of ?st)))"
    using list_scan_scannable [of ?st ?st "[]"]
    by (simp add: unf wf_store_gets scannable_store_def)
  from a b show ?thesis by blast
qed

theorem list_entries_match_records_witness:
  "key_matches (param_key (list_request (Some (js ''s3cret'')))) (API_SECRET (example_env two_records))
   \<and> handleListSubscribers (list_request (Some (js ''s3cret''))) (example_env two_records)
      = Inr (subscribers_response
          [\<lparr>email = js ''a@b.com'', token = JString (js ''t1''),
            subscribed_at = JString (js ''2024-01-01T00:00:00.000Z'')\<rparr>,
           \<lparr>email = js ''c@d.com'', token = JString (js ''t2''),
            subscribed_at = JString (js ''2024-01-01T00:00:00.000Z'')\<rparr>])
   \<and> kv_get two_records (js ''c@d.com'')
      = Some (JsonWith (JString (js ''t2'')) (JString (js ''2024-01-01T00:00:00.000Z'')))"
proof -
  have k: "key_matches (param_key (list_request (Some (js ''s3cret''))))
      (API_SECRET (example_env two_records))"
    by code_simp
  have w: "wf_store (SUBSCRIBERS (example_env two_records))" by code_simp
  have s: "scannable_store (SUBSCRIBERS (example_env two_records))" by code_simp
  have c: "concat (map entry_of (SUBSCRIBERS (example_env two_records))) =
          [\<lparr>email = js ''a@b.com'', token = JString (js ''t1''),
            subscribed_at = JString (js ''2024-01-01T00:00:00.000Z'')\<rparr>,
           \<lparr>email = js ''c@d.com'', token = JString (js ''t2''),
            subscribed_at = JString (js ''2024-01-01T00:00:00.000Z'')\<rparr>]"
    by code_simp
  have e: "SUBSCRIBERS (example_env two_records) = two_records" by (simp add: example_env_def)
  have inj: "\<And>a b. subscribers_response a = subscribers_response b \<longleftrightarrow> a = b"
    by (simp add: subscribers_response_def)
  note th = list_entries_match_records [OF k]
  from th w s
  have l: "handleListSubscribers (list_request (Some (js ''s3cret''))) (example_env two_records)
      = Inr (subscribers_response (concat (map entry_of (SUBSCRIBERS (example_env two_records)))))"
    by simp
  with th obtain es
    where es: "subscribers_response (concat (map entry_of (SUBSCRIBERS (example_env two_records))))
        = subscribers_response es"
      "\<forall>x \<in> set es. kv_get (SUBSCRIBERS (example_env two_records)) (email x)
          = Some (JsonWith (token x) (subscribed_at x))"
    by blast
  from es(1) c have "es = [\<lparr>email = js ''a@b.com'', token = JString (js ''t1''),
            subscribed_at = JString (js ''2024-01-01T00:00:00.000Z'')\<rparr>,
           \<lparr>email = js ''c@d.com'', token = JString (js ''t2''),
            subscribed_at = JString (js ''2024-01-01T00:00:00.000Z'')\<rparr>]"
    by (simp only: inj)
  then have "\<lparr>email = js ''c@d.com'', token = JString (js ''t2''),
      subscribed_at = JString (js ''2024-01-01T00:00:00.000Z'')\<rparr> \<in> set es"
    by simp
  with es(2) have "kv_get (SUBSCRIBERS (example_env two_records)) (js ''c@d.com'')
      = Some (JsonWith (JString (js ''t2'')) (JString (js ''2024-01-01T00:00:00.000Z'')))"
    by force
  with l k c e show ?thesis by simp
qed

section \<open>Subscribe: validation\<close>

text \<open>
  An email that is missing because the body is \<open>null\<close>, or is not JSON at all, is not
  answered with 400: destructuring or \<open>request.json()\<close> throws inside the \<open>try\<close>
  and the answer is 500 \<open>Server error\<close>.
\<close>

theorem subscribe_missing_email_server_error_counterexample:
  "handleSubscribe (js ''u1'') (js ''2024'') id (subscribe_request BodyNull)
      (example_env two_records) = (server_error, two_records)
   \<and> handleSubscribe (js ''u1'') (js ''2024'') id (subscribe_request BodyRejects)
      (example_env two_records) = (server_error, two_records)
   \<and> status server_error = 500
   \<and> server_error \<noteq> json_response 400 (JsonError ''Invalid email'')"
proof -
  have a: "handleSubscribe (js ''u1'') (js ''2024'') id (subscribe_request BodyNull)
      (example_env two_records) = (server_error, two_records)"
    by code_simp
  have b: "handleSubscribe (js ''u1'') (js ''2024'') id (subscribe_request BodyRejects)
      (example_env two_records) = (server_error, two_records)"
    by code_simp
  have c: "status server_error = 500" by (simp add: server_error_def json_response_def)
  have d: "server_error \<noteq> json_response 400 (JsonError ''Invalid email'')"
    by (simp add: server_error_def json_response_def)
  from a b c d show ?thesis by (intro conjI)
qed

text \<open>
  C5, as amended. When the body is a JSON value other than \<open>null\<close> and its
  \<open>email\<close> is missing or otherwise falsy, or has a string form that does not match the
  pattern, Subscribe answers 400 \<open>Invalid email\<close>. When the body is not JSON or is
  \<open>null\<close>, or the string coercion of the email throws, it answers 500
  \<open>Server error\<close>. In all these cases the store is left as it was.
\<close>

theorem subscribe_invalid_email_no_write:
  "(body req = BodyWith em
      \<and> (\<not> ToBoolean em \<or> (\<exists>s. ToString em = Some s \<and> \<not> isValidEmail s))
    \<longrightarrow> handleSubscribe uuid now ulower req e
          = (json_response 400 (JsonError ''Invalid email''), SUBSCRIBERS e))
   \<and> (body req = BodyRejects \<or> body req = BodyNull
       \<or> (body req = BodyWith em \<and> ToBoolean em \<and> ToString em = None)
    \<longrightarrow> handleSubscribe uuid now ulower req e = (server_error, SUBSCRIBERS e))
   \<and> status (json_response 400 (JsonError ''Invalid email'')) = 400
   \<and> status server_error = 500"
  by (auto simp add: handleSubscribe_def json_response_def server_error_def)

theorem subscribe_invalid_email_no_write_witness:
  "\<not> isValidEmail (js ''no-at-sign.example'')
   \<and> handleSubscribe (js ''u1'') (js ''2024'') id
        (subscribe_request (BodyWith (JString (js ''no-at-sign.example''))))
        (example_env two_records)
      = (json_response 400 (JsonError ''Invalid email''), two_records)
   \<and> handleSubscribe (js ''u1'') (js ''2024'') id
        (subscribe_request (BodyWith JUndefined)) (example_env two_records)
      = (json_response 400 (JsonError ''Invalid email''), two_records)"
proof -
  have v: "\<not> isValidEmail (js ''no-at-sign.example'')" by code_simp
  have b: "body (subscribe_request (BodyWith (JString (js ''no-at-sign.example'')))) =
      BodyWith (JString (js ''no-at-sign.example''))"
    by (simp add: subscribe_request_def)
  from v have h: "\<not> ToBoolean (JString (js ''no-at-sign.example''))
      \<or> (\<exists>s. ToString (JString (js ''no-at-sign.example'')) = Some s \<and> \<not> isValidEmail s)"
    by simp
  have b': "body (subscribe_request (BodyWith JUndefined)) = BodyWith JUndefined"
    by (simp add: subscribe_request_def)
  have e: "SUBSCRIBERS (example_env two_records) = two_records" by (simp add: example_env_def)
  from subscribe_invalid_email_no_write [of
      "subscribe_request (BodyWith (JString (js ''no-at-sign.example'')))"
      "JString (js ''no-at-sign.example'')" "js ''u1''" "js ''2024''" id "example_env two_records"]
    b h
  have r1: "handleSubscribe (js ''u1'') (js ''2024'') id
        (subscribe_request (BodyWith (JString (js ''no-at-sign.example''))))
        (example_env two_records)
      = (json_response 400 (JsonError ''Invalid email''), SUBSCRIBERS (example_env two_records))"
    by blast
  from subscribe_invalid_email_no_write [of "subscribe_request (BodyWith JUndefined)" JUndefined
      "js ''u1''" "js ''2024''" id "example_env two_records"] b'
  have r2: "handleSubscribe (js ''u1'') (js ''2024'') id
        (subscribe_request (BodyWith JUndefined)) (example_env two_records)
      = (json_response 400 (JsonError ''Invalid email''), SUBSCRIBERS (example_env two_records))"
    by simp
  from v r1 r2 e show ?thesis by simp
qed

section \<open>Unsubscribe: the scan\<close>

text \<open>
  A record that holds the token is not deleted when a value that is not JSON comes before it
  in scan order: the scan throws there, and the store stays as it is.
\<close>

theorem unsubscribe_match_behind_malformed_counterexample:
  "(js ''c@d.com'', example_record ''t2'') \<in> set malformed_first
   \<and> has_token (js ''t2'') (example_record ''t2'')
   \<and> \<not> has_token (js ''t2'') Unparseable
   \<and> handleUnsubscribe (unsubscribe_request (Some (js ''t2''))) (example_env malformed_first)
      = (Inl SyntaxError, malformed_first)"
proof -
  have a: "(js ''c@d.com'', example_record ''t2'') \<in> set malformed_first"
    by (simp add: malformed_first_def)
  have b: "has_token (js ''t2'') (example_record ''t2'')" by (simp add: example_record_def)
  have c: "\<not> has_token (js ''t2'') Unparseable" by simp
  have d: "handleUnsubscribe (unsubscribe_request (Some (js ''t2''))) (example_env malformed_first)
      = (Inl SyntaxError, malformed_first)"
    by code_simp
  from a b c d show ?thesis by (intro conjI)
qed

text \<open>
  C6, as amended. For every store (keys distinct) and every request, Unsubscribe deletes at
  most one record. Without a token it answers 400 and deletes nothing. With a token, the scan
  ends at the first record in scan order that it cannot read or whose token field equals the
  token, and no record behind that one has any influence: if there is none, the answer is 404
  and the store is unchanged; if it is a record the scan cannot read, the request ends with
  the exception and the store is unchanged; otherwise it is the first record whose token
  field equals the token, exactly this record is removed, all others stay as they are, and
  the answer is the confirmation page.
\<close>

theorem unsubscribe_deletes_first_match:
  assumes wf: "wf_store (SUBSCRIBERS e)"
  shows "(param_token req = None \<or> param_token req = Some [] \<longrightarrow>
            handleUnsubscribe req e = (Inr invalid_link_page, SUBSCRIBERS e))
         \<and> (\<forall>tok. param_token req = Some tok \<and> tok \<noteq> [] \<longrightarrow>
              handleUnsubscribe req e =
                (case find (stops_scan tok) (SUBSCRIBERS e) of
                   None \<Rightarrow> (Inr not_found_page, SUBSCRIBERS e)
                 | Some kv \<Rightarrow>
                     (case JSON_parse (snd kv) of
                        Inl x \<Rightarrow> (Inl x, SUBSCRIBERS e)
                      | Inr p \<Rightarrow> (Inr unsubscribed_page, remove1 kv (SUBSCRIBERS e)))))
         \<and> (\<forall>tok kv p. find (stops_scan tok) (SUBSCRIBERS e) = Some kv \<and> JSON_parse (snd kv) = Inr p
              \<longrightarrow> find (matches_token tok) (SUBSCRIBERS e) = Some kv)"
proof (intro conjI allI impI)
  fix tok kv p
  assume "find (stops_scan tok) (SUBSCRIBERS e) = Some kv \<and> JSON_parse (snd kv) = Inr p"
  then show "find (matches_token tok) (SUBSCRIBERS e) = Some kv"
    by (auto intro: first_stop_parsed_is_first_match)
next
  assume "param_token req = None \<or> param_token req = Some []"
  then show "handleUnsubscribe req e = (Inr invalid_link_page, SUBSCRIBERS e)"
    by (auto simp add: handleUnsubscribe_def invalid_link_page_def)
next
  fix tok
  let ?st = "SUBSCRIBERS e"
  assume t: "param_token req = Some tok \<and> tok \<noteq> []"
  have scan: "unsubscribe_scan tok ?st (map fst ?st) =
    (case find (stops_scan tok) ?st of
       None \<Rightarrow> Inr (?st, False)
     | Some kv \<Rightarrow>
         (case JSON_parse (snd kv) of
            Inl x \<Rightarrow> Inl x
          | Inr p \<Rightarrow> Inr (kv_delete ?st (fst kv), True)))"
    using wf_store_gets [OF wf] by (rule unsubscribe_scan_exact)
  show "handleUnsubscribe req e =
                (case find (stops_scan tok) ?st of
                   None \<Rightarrow> (Inr not_found_page, ?st)
                 | Some kv \<Rightarrow>
                     (case JSON_parse (snd kv) of
                        Inl x \<Rightarrow> (Inl x, ?st)
                      | Inr p \<Rightarrow> (Inr unsubscribed_page, remove1 kv ?st)))"
  proof (cases "find (stops_scan tok) ?st")
    case None
    with t scan show ?thesis by (simp add: handleUnsubscribe_token)
  next
    case (Some kv)
    then have "kv \<in> set ?st" by (rule find_stops_scan_mem)
    then have "kv_delete ?st (fst kv) = remove1 kv ?st"
      using wf delete_remove1 [of ?st "fst kv" "snd kv"] by (simp add: wf_store_def kv_delete_def)
    with t scan Some show ?thesis
      by (simp add: handleUnsubscribe_token split: sum.splits)
  qed
qed

theorem unsubscribe_deletes_first_match_witness:
  "wf_store malformed_last
   \<and> handleUnsubscribe (unsubscribe_request (Some (js ''t1''))) (example_env malformed_last)
      = (Inr unsubscribed_page, [(js ''c@d.com'', Unparseable)])"
proof -
  have w: "wf_store (SUBSCRIBERS (example_env malformed_last))" by code_simp
  have t: "param_token (unsubscribe_request (Some (js ''t1''))) = Some (js ''t1'')
      \<and> js ''t1'' \<noteq> []"
    by (simp add: unsubscribe_request_def js_def)
  have f: "find (stops_scan (js ''t1'')) (SUBSCRIBERS (example_env malformed_last))
      = Some (js ''a@b.com'', example_record ''t1'')"
    by code_simp
  have p: "JSON_parse (snd (js ''a@b.com'', example_record ''t1''))
      = Inr (JString (js ''t1''), JString (js ''2024-01-01T00:00:00.000Z''))"
    by (simp add: example_record_def)
  have r: "remove1 (js ''a@b.com'', example_record ''t1'') (SUBSCRIBERS (example_env malformed_last))
      = [(js ''c@d.com'', Unparseable)]"
    by code_simp
  have e: "SUBSCRIBERS (example_env malformed_last) = malformed_last" by (simp add: example_env_def)
  from unsubscribe_deletes_first_match [OF w, of "unsubscribe_request (Some (js ''t1''))"] t
  have "handleUnsubscribe (unsubscribe_request (Some (js ''t1''))) (example_env malformed_last) =
      (case find (stops_scan (js ''t1'')) (SUBSCRIBERS (example_env malformed_last)) of
         None \<Rightarrow> (Inr not_found_page, SUBSCRIBERS (example_env malformed_last))
       | Some kv \<Rightarrow>
           (case JSON_parse (snd kv) of
              Inl x \<Rightarrow> (Inl x, SUBSCRIBERS (example_env malformed_last))
            | Inr p \<Rightarrow> (Inr unsubscribed_page,
                remove1 kv (SUBSCRIBERS (example_env malformed_last)))))"
    by blast
  then have "handleUnsubscribe (unsubscribe_request (Some (js ''t1''))) (example_env malformed_last)
      = (Inr unsubscribed_page, [(js ''c@d.com'', Unparseable)])"
    by (simp only: f p r option.case sum.case)
  with w e show ?thesis by simp
qed

text \<open>
  A token that matches no record is not answered with 404 when a stored value is not JSON:
  the scan throws.
\<close>

theorem unsubscribe_unknown_token_throws_counterexample:
  "\<not> has_token (js ''t9'') Unparseable
   \<and> \<not> has_token (js ''t9'') (example_record ''t2'')
   \<and> handleUnsubscribe (unsubscribe_request (Some (js ''t9''))) (example_env malformed_first)
      = (Inl SyntaxError, malformed_first)
   \<and> Inl SyntaxError \<noteq> (Inr not_found_page :: exn + response)"
proof -
  have a: "\<not> has_token (js ''t9'') Unparseable" by simp
  have b: "\<not> has_token (js ''t9'') (example_record ''t2'')" by code_simp
  have c: "handleUnsubscribe (unsubscribe_request (Some (js ''t9''))) (example_env malformed_first)
      = (Inl SyntaxError, malformed_first)"
    by code_simp
  have d: "Inl SyntaxError \<noteq> (Inr not_found_page :: exn + response)" by simp
  from a b c d show ?thesis by (intro conjI)
qed

text \<open>
  C7, as amended. For a present token that equals the token field of no stored record,
  Unsubscribe leaves every store as it is. On a store whose values can all be read by the scan
  it answers the not-found page with status 404; on a store (keys distinct) with a value the
  scan cannot read, the request ends with an exception instead.
\<close>

theorem unsubscribe_unknown_token_not_found:
  assumes tok: "param_token req = Some tok" "tok \<noteq> []"
    and nomatch: "\<forall>kv \<in> set (SUBSCRIBERS e). \<not> has_token tok (snd kv)"
  shows "snd (handleUnsubscribe req e) = SUBSCRIBERS e
         \<and> (scannable_store (SUBSCRIBERS e) \<longrightarrow> fst (handleUnsubscribe req e) = Inr not_found_page)
         \<and> (wf_store (SUBSCRIBERS e) \<and> \<not> scannable_store (SUBSCRIBERS e) \<longrightarrow>
              (\<exists>x. fst (handleUnsubscribe req e) = Inl x))
         \<and> status not_found_page = 404"
proof -
  let ?st = "SUBSCRIBERS e"
  note unf = handleUnsubscribe_token [OF tok, of e]
  from unsubscribe_scan_no_match [OF nomatch, of "map fst ?st"]
  have a: "snd (handleUnsubscribe req e) = ?st" by (auto simp add: unf)
  have b: "scannable_store ?st \<Longrightarrow> fst (handleUnsubscribe req e) = Inr not_found_page"
    using unsubscribe_scan_no_match [OF nomatch, of "map fst ?st"]
      unsubscribe_scan_scannable [of ?st tok "map fst ?st"]
    by (auto simp add: unf)
  have c: "wf_store ?st \<and> \<not> scannable_store ?st \<Longrightarrow> \<exists>x. fst (handleUnsubscribe req e) = Inl x"
  proof -
    assume h: "wf_store ?st \<and> \<not> scannable_store ?st"
    then obtain k0 v0 where kv: "(k0, v0) \<in> set ?st" "\<not> scannable v0"
      by (auto simp add: scannable_store_def list_all_iff)
    then have "stops_scan tok (k0, v0)" by (simp add: stops_scan_def)
    with kv(1) have "find (stops_scan tok) ?st \<noteq> None" by (auto simp add: find_None_iff)
    then obtain kv' where f: "find (stops_scan tok) ?st = Some kv'" by auto
    then have m: "kv' \<in> set ?st" and s: "stops_scan tok kv'"
      by (auto simp add: find_Some_iff)
    from m nomatch have "\<not> has_token tok (snd kv')" by blast
    with s have "\<not> scannable (snd kv')" by (simp add: stops_scan_def)
    then obtain x where "JSON_parse (snd kv') = Inl x" by (cases "snd kv'") auto
    with f h show ?thesis
      using unsubscribe_scan_exact [OF wf_store_gets, of ?st tok] by (simp add: unf)
  qed
  from a b c show ?thesis by (simp add: not_found_page_def html_response_def)
qed

theorem unsubscribe_unknown_token_not_found_witness:
  "scannable_store two_records
   \<and> handleUnsubscribe (unsubscribe_request (Some (js ''t9''))) (example_env two_records)
      = (Inr not_found_page, two_records)"
proof -
  have s: "scannable_store (SUBSCRIBERS (example_env two_records))" by code_simp
  have t: "param_token (unsubscribe_request (Some (js ''t9''))) = Some (js ''t9'')"
    by (simp add: unsubscribe_request_def)
  have n: "js ''t9'' \<noteq> []" by (simp add: js_def)
  have m: "\<forall>kv \<in> set (SUBSCRIBERS (example_env two_records)). \<not> has_token (js ''t9'') (snd kv)"
    by code_simp
  have e: "SUBSCRIBERS (example_env two_records) = two_records" by (simp add: example_env_def)
  show ?thesis
    using unsubscribe_unknown_token_not_found [OF t n m] s e
    by (simp add: prod_eq_iff)
qed

section \<open>Cross-origin headers\<close>



end
